theory Spec2Isabelle
  imports Main
begin

section \<open>Values, objects and the store\<close>

text \<open>
  The property decorators \<^verbatim>\<open>Input\<close> and \<^verbatim>\<open>Output\<close> keep, on the constructor of every
  annotated class, a static property \<^verbatim>\<open>ngBaseDef\<close> that refers to a descriptor object with
  three mapping objects \<^verbatim>\<open>inputs\<close>, \<^verbatim>\<open>outputs\<close> and \<^verbatim>\<open>declaredInputs\<close>. All of these are
  JavaScript objects, shared by reference and mutated in place, so the model has an explicit
  store: references are natural numbers handed out by a counter, and every function of the
  source takes the store and returns the updated one.

  The values stored are \<^verbatim>\<open>undefined\<close>, strings and booleans. A mapping object is a plain
  object, given by its own properties.
\<close>

datatype jsval = Undefined | Str string | Bool bool

type_synonym obj = "string \<rightharpoonup> jsval"

type_synonym ref = nat

text \<open>
  A class constructor with its prototype chain: either a class that extends nothing, or a
  class that extends another one. A static property read on a constructor walks this chain;
  the chain of a JavaScript object is finite and acyclic, which the datatype gives by
  construction. The number is the identity of the class.
\<close>

datatype klass = Class nat | Extends nat klass

text \<open>The object a property decorator receives; the source reads only its \<^verbatim>\<open>constructor\<close>.\<close>

datatype target = Target (constructor: klass)

text \<open>
  The descriptor \<^verbatim>\<open>{inputs?: any, outputs?: any, declaredInputs?: any}\<close>: each field is a
  reference to a mapping object, or absent.
\<close>

record baseDef =
  inputs :: "ref option"
  outputs :: "ref option"
  declaredInputs :: "ref option"

record store =
  objs :: "ref \<Rightarrow> obj"
  baseDefs :: "ref \<Rightarrow> baseDef"
  ctorProps :: "klass \<Rightarrow> string \<rightharpoonup> ref"
  nextRef :: ref

definition emptyStore :: store where
  "emptyStore = \<lparr>objs = (\<lambda>_. Map.empty),
     baseDefs = (\<lambda>_. \<lparr>inputs = None, outputs = None, declaredInputs = None\<rparr>),
     ctorProps = (\<lambda>_. Map.empty), nextRef = 0\<rparr>"

text \<open>
  Modelled from the spec: \<^verbatim>\<open>NG_BASE_DEF\<close> is imported from \<^verbatim>\<open>../render3/fields\<close>, which
  is not among the sources. The spec describes the test
  \<^verbatim>\<open>constructor.hasOwnProperty(NG_BASE_DEF)\<close> as the direct ownership test for the
  descriptor, so the constant is the key of the property \<^verbatim>\<open>ngBaseDef\<close>.
\<close>

definition NG_BASE_DEF :: string where
  "NG_BASE_DEF = ''ngBaseDef''"

text \<open>\<^verbatim>\<open>constructor.hasOwnProperty(key)\<close>: no walk along the prototype chain.\<close>

definition hasOwnProperty :: "store \<Rightarrow> klass \<Rightarrow> string \<Rightarrow> bool" where
  "hasOwnProperty s c key = (ctorProps s c key \<noteq> None)"

text \<open>\<^verbatim>\<open>constructor.ngBaseDef\<close>: an own property first, then the superclass's.\<close>

fun getNgBaseDef :: "store \<Rightarrow> klass \<Rightarrow> ref option" where
  "getNgBaseDef s (Class n) = ctorProps s (Class n) ''ngBaseDef''"
| "getNgBaseDef s (Extends n super) =
     (case ctorProps s (Extends n super) ''ngBaseDef'' of
        Some b \<Rightarrow> Some b
      | None \<Rightarrow> getNgBaseDef s super)"

text \<open>\<^verbatim>\<open>constructor.ngBaseDef = b\<close>: always writes an own property.\<close>

definition setNgBaseDef :: "klass \<Rightarrow> ref \<Rightarrow> store \<Rightarrow> store" where
  "setNgBaseDef c b s =
     s\<lparr>ctorProps := (ctorProps s)(c := (ctorProps s c)(''ngBaseDef'' \<mapsto> b))\<rparr>"

text \<open>The object literal \<^verbatim>\<open>{}\<close>: a new, empty object.\<close>

definition newObject :: "store \<Rightarrow> ref \<times> store" where
  "newObject s =
     (nextRef s, s\<lparr>objs := (objs s)(nextRef s := Map.empty), nextRef := Suc (nextRef s)\<rparr>)"

text \<open>The object literal \<^verbatim>\<open>{inputs: i, outputs: o, declaredInputs: d}\<close>.\<close>

definition newBaseDef :: "baseDef \<Rightarrow> store \<Rightarrow> ref \<times> store" where
  "newBaseDef d s =
     (nextRef s, s\<lparr>baseDefs := (baseDefs s)(nextRef s := d), nextRef := Suc (nextRef s)\<rparr>)"

text \<open>
  Modelled from the spec: \<^verbatim>\<open>fillProperties\<close> is imported from \<^verbatim>\<open>../util/property\<close>,
  which is not among the sources. The spec says that every entry of the source mapping is
  copied into the target mapping, the target being a mapping object of its own; a source
  that is absent contributes nothing.
\<close>

definition fillProperties :: "ref \<Rightarrow> ref option \<Rightarrow> store \<Rightarrow> store" where
  "fillProperties tgt source s =
     (case source of
        None \<Rightarrow> s
      | Some src \<Rightarrow> s\<lparr>objs := (objs s)(tgt := objs s tgt ++ objs s src)\<rparr>)"

section \<open>The source functions\<close>

text \<open>
  \<^verbatim>\<open>initializeBaseDef\<close>: reads the descriptor visible on the constructor, installs a new
  descriptor with three new mapping objects as the constructor's own property, and fills
  the new mappings from the descriptor read before, if there was one.
\<close>

definition initializeBaseDef :: "target \<Rightarrow> store \<Rightarrow> store" where
  "initializeBaseDef tg s =
     (let ctor = constructor tg;
          inheritedBaseDef = getNgBaseDef s ctor;
          (i, s1) = newObject s;
          (ou, s2) = newObject s1;
          (d, s3) = newObject s2;
          (b, s4) = newBaseDef \<lparr>inputs = Some i, outputs = Some ou, declaredInputs = Some d\<rparr> s3;
          s5 = setNgBaseDef ctor b s4
      in case inheritedBaseDef of
           None \<Rightarrow> s5
         | Some ib \<Rightarrow>
             (let s6 = fillProperties i (inputs (baseDefs s5 ib)) s5;
                  s7 = fillProperties ou (outputs (baseDefs s6 ib)) s6
              in fillProperties d (declaredInputs (baseDefs s7 ib)) s7))"

text \<open>
  The guard at the head of the function returned by \<^verbatim>\<open>updateBaseDefFromIOProp\<close>:
  \<^verbatim>\<open>if (!constructor.hasOwnProperty(NG_BASE_DEF)) { initializeBaseDef(target); }\<close>.
  The spec calls this step \<^verbatim>\<open>ensureDescriptor\<close>.
\<close>

definition ensureBaseDef :: "target \<Rightarrow> store \<Rightarrow> store" where
  "ensureBaseDef tg s =
     (if \<not> hasOwnProperty s (constructor tg) NG_BASE_DEF then initializeBaseDef tg s else s)"

text \<open>The two getters handed to \<^verbatim>\<open>updateBaseDefFromIOProp\<close>:
  \<^verbatim>\<open>baseDef => baseDef.inputs || {}\<close> and \<^verbatim>\<open>baseDef => baseDef.outputs || {}\<close>.\<close>

definition getInputs :: "baseDef \<Rightarrow> store \<Rightarrow> ref \<times> store" where
  "getInputs bd s = (case inputs bd of Some r \<Rightarrow> (r, s) | None \<Rightarrow> newObject s)"

definition getOutputs :: "baseDef \<Rightarrow> store \<Rightarrow> ref \<times> store" where
  "getOutputs bd s = (case outputs bd of Some r \<Rightarrow> (r, s) | None \<Rightarrow> newObject s)"

text \<open>
  The assignment \<^verbatim>\<open>defProp[name] = value\<close> on a plain object, for the values of the model.
  It writes an own property, with one exception: a plain object that has no own property
  \<^verbatim>\<open>__proto__\<close> inherits that name as an accessor from \<^verbatim>\<open>Object.prototype\<close>, and the setter
  of the accessor ignores a value that is neither an object nor \<^verbatim>\<open>null\<close>, so nothing is
  written.
\<close>

definition assignProp :: "obj \<Rightarrow> string \<Rightarrow> jsval \<Rightarrow> obj" where
  "assignProp ob name v =
     (if name = ''__proto__'' \<and> ob name = None then ob else ob(name \<mapsto> v))"

text \<open>\<^verbatim>\<open>args[0]\<close> of a rest parameter: \<^verbatim>\<open>undefined\<close> when no argument was passed.\<close>

fun arg0 :: "jsval list \<Rightarrow> jsval" where
  "arg0 [] = Undefined"
| "arg0 (a # _) = a"

text \<open>
  \<^verbatim>\<open>updateBaseDefFromIOProp(getProp)(target, name, ...args)\<close>. After the guard the
  constructor owns a descriptor, so the read \<^verbatim>\<open>constructor.ngBaseDef\<close> finds one (lemma
  \<open>getNgBaseDef_ensureBaseDef\<close> below); the other branch of the case is never taken.
\<close>

definition updateBaseDefFromIOProp ::
  "(baseDef \<Rightarrow> store \<Rightarrow> ref \<times> store) \<Rightarrow> target \<Rightarrow> string \<Rightarrow> jsval list \<Rightarrow> store \<Rightarrow> store" where
  "updateBaseDefFromIOProp getProp tg name args s =
     (let ctor = constructor tg;
          s1 = ensureBaseDef tg s
      in case getNgBaseDef s1 ctor of
           None \<Rightarrow> s1
         | Some b \<Rightarrow>
             (let (defProp, s2) = getProp (baseDefs s1 b) s1
              in s2\<lparr>objs := (objs s2)(defProp := assignProp (objs s2 defProp) name (arg0 args))\<rparr>))"

text \<open>
  The functions that the source hands to \<^verbatim>\<open>makePropDecorator\<close> as the last argument of
  \<^verbatim>\<open>Input\<close> and of \<^verbatim>\<open>Output\<close>: \<^verbatim>\<open>updateBaseDefFromIOProp(baseDef => baseDef.inputs || {})\<close>
  and \<^verbatim>\<open>updateBaseDefFromIOProp(baseDef => baseDef.outputs || {})\<close>. Each takes the target, the
  name of the annotated property and the arguments of the decorator: \<^verbatim>\<open>@Input()\<close> has none,
  \<^verbatim>\<open>@Input('alias')\<close> has the alias. They are what the spec calls \<^verbatim>\<open>recordBinding\<close> with the
  category \<^verbatim>\<open>input\<close> or \<^verbatim>\<open>output\<close>.
\<close>

definition Input :: "jsval list \<Rightarrow> target \<Rightarrow> string \<Rightarrow> store \<Rightarrow> store" where
  "Input args tg name = updateBaseDefFromIOProp getInputs tg name args"

definition Output :: "jsval list \<Rightarrow> target \<Rightarrow> string \<Rightarrow> store \<Rightarrow> store" where
  "Output args tg name = updateBaseDefFromIOProp getOutputs tg name args"

text \<open>A sequence of annotations, applied in order.\<close>

datatype annotation =
  InputAnn "jsval list" target string
| OutputAnn "jsval list" target string

fun annotate :: "annotation \<Rightarrow> store \<Rightarrow> store" where
  "annotate (InputAnn args tg name) s = Input args tg name s"
| "annotate (OutputAnn args tg name) s = Output args tg name s"

fun annotateAll :: "annotation list \<Rightarrow> store \<Rightarrow> store" where
  "annotateAll [] s = s"
| "annotateAll (a # as) s = annotateAll as (annotate a s)"

text \<open>
  The metadata transform of the \<^verbatim>\<open>Pipe\<close> decorator, \<^verbatim>\<open>(p: Pipe) => ({pure: true, ...p})\<close>:
  a new object with \<^verbatim>\<open>pure: true\<close>, over which every own property of \<open>p\<close> is written.
\<close>

definition PipeProps :: "obj \<Rightarrow> obj" where
  "PipeProps p = [''pure'' \<mapsto> Bool True] ++ p"

section \<open>Reading a descriptor\<close>

text \<open>The descriptor a class owns directly, and the mapping behind an optional reference.\<close>

definition ownBaseDef :: "store \<Rightarrow> klass \<Rightarrow> ref option" where
  "ownBaseDef s c = ctorProps s c ''ngBaseDef''"

definition mapping :: "store \<Rightarrow> ref option \<Rightarrow> obj" where
  "mapping s r = (case r of None \<Rightarrow> Map.empty | Some a \<Rightarrow> objs s a)"

text \<open>The three mappings of the descriptor visible on a class (own or inherited); empty when
  no descriptor is visible.\<close>

definition visibleInputs :: "store \<Rightarrow> klass \<Rightarrow> obj" where
  "visibleInputs s c =
     (case getNgBaseDef s c of None \<Rightarrow> Map.empty | Some b \<Rightarrow> mapping s (inputs (baseDefs s b)))"

definition visibleOutputs :: "store \<Rightarrow> klass \<Rightarrow> obj" where
  "visibleOutputs s c =
     (case getNgBaseDef s c of None \<Rightarrow> Map.empty | Some b \<Rightarrow> mapping s (outputs (baseDefs s b)))"

definition visibleDeclaredInputs :: "store \<Rightarrow> klass \<Rightarrow> obj" where
  "visibleDeclaredInputs s c =
     (case getNgBaseDef s c of None \<Rightarrow> Map.empty
      | Some b \<Rightarrow> mapping s (declaredInputs (baseDefs s b)))"

section \<open>Well-formed stores\<close>

text \<open>The mapping objects a descriptor refers to.\<close>

definition mapRefs :: "baseDef \<Rightarrow> ref set" where
  "mapRefs bd = set_option (inputs bd) \<union> set_option (outputs bd) \<union> set_option (declaredInputs bd)"

text \<open>
  The stores the decorators work on: every descriptor that a class owns was allocated
  (its reference and those of its three mappings lie below the allocation counter), has all
  three mappings, each an object of its own, and shares no mapping object with the
  descriptor of another class. The empty store is well formed and the decorators keep stores
  well formed (lemmas \<open>wellFormed_emptyStore\<close> and \<open>wellFormed_annotateAll\<close>).
\<close>

definition wellFormed :: "store \<Rightarrow> bool" where
  "wellFormed s \<longleftrightarrow>
     (\<forall>c b. ownBaseDef s c = Some b \<longrightarrow>
        b < nextRef s \<and>
        (\<exists>i ou d. baseDefs s b = \<lparr>inputs = Some i, outputs = Some ou, declaredInputs = Some d\<rparr> \<and>
           i < nextRef s \<and> ou < nextRef s \<and> d < nextRef s \<and> i \<noteq> ou \<and> i \<noteq> d \<and> ou \<noteq> d)) \<and>
     (\<forall>c c' b b'. ownBaseDef s c = Some b \<longrightarrow> ownBaseDef s c' = Some b' \<longrightarrow> c \<noteq> c' \<longrightarrow>
        mapRefs (baseDefs s b) \<inter> mapRefs (baseDefs s b') = {})"

text \<open>The proper ancestors of a class, nearest first.\<close>

fun ancestors :: "klass \<Rightarrow> klass list" where
  "ancestors (Class n) = []"
| "ancestors (Extends n super) = super # ancestors super"

section \<open>Basic facts\<close>



lemma getNgBaseDef_owner:
  "getNgBaseDef s c = Some b \<Longrightarrow> \<exists>c'. ownBaseDef s c' = Some b"
  by (induction c) (auto simp: ownBaseDef_def split: option.splits)

lemma getNgBaseDef_own:
  "ownBaseDef s c = Some b \<Longrightarrow> getNgBaseDef s c = Some b"
  by (cases c) (auto simp: ownBaseDef_def)

lemma wellFormed_ownD:
  assumes "wellFormed s" "ownBaseDef s c = Some b"
  obtains i ou d where "baseDefs s b = \<lparr>inputs = Some i, outputs = Some ou, declaredInputs = Some d\<rparr>"
    "b < nextRef s" "i < nextRef s" "ou < nextRef s" "d < nextRef s" "i \<noteq> ou" "i \<noteq> d" "ou \<noteq> d"
  using assms unfolding wellFormed_def by blast

lemma wellFormed_visibleD:
  assumes "wellFormed s" "getNgBaseDef s c = Some b"
  obtains i ou d where "baseDefs s b = \<lparr>inputs = Some i, outputs = Some ou, declaredInputs = Some d\<rparr>"
    "b < nextRef s" "i < nextRef s" "ou < nextRef s" "d < nextRef s" "i \<noteq> ou" "i \<noteq> d" "ou \<noteq> d"
  using getNgBaseDef_owner[OF assms(2)] wellFormed_ownD[OF assms(1)] by metis

lemma initializeBaseDef_eq:
  assumes "wellFormed s"
  shows "initializeBaseDef tg s =
     s\<lparr>objs := (objs s)(nextRef s := visibleInputs s (constructor tg),
                         Suc (nextRef s) := visibleOutputs s (constructor tg),
                         Suc (Suc (nextRef s)) := visibleDeclaredInputs s (constructor tg)),
       baseDefs := (baseDefs s)(nextRef s + 3 :=
          \<lparr>inputs = Some (nextRef s), outputs = Some (Suc (nextRef s)),
           declaredInputs = Some (Suc (Suc (nextRef s)))\<rparr>),
       ctorProps := (ctorProps s)(constructor tg :=
          (ctorProps s (constructor tg))(''ngBaseDef'' \<mapsto> nextRef s + 3)),
       nextRef := nextRef s + 4\<rparr>"
proof (cases "getNgBaseDef s (constructor tg)")
  case None
  then show ?thesis
    by (simp add: initializeBaseDef_def newObject_def newBaseDef_def setNgBaseDef_def
        visibleInputs_def visibleOutputs_def visibleDeclaredInputs_def Let_def numeral_3_eq_3)
next
  case (Some ib)
  from wellFormed_visibleD[OF assms Some] obtain i ou d where
    bd: "baseDefs s ib = \<lparr>inputs = Some i, outputs = Some ou, declaredInputs = Some d\<rparr>"
    and lt: "ib < nextRef s" "i < nextRef s" "ou < nextRef s" "d < nextRef s" by blast
  from lt have ne: "ib \<noteq> Suc (Suc (Suc (nextRef s)))"
    "i \<noteq> nextRef s" "i \<noteq> Suc (nextRef s)" "i \<noteq> Suc (Suc (nextRef s))"
    "ou \<noteq> nextRef s" "ou \<noteq> Suc (nextRef s)" "ou \<noteq> Suc (Suc (nextRef s))"
    "d \<noteq> nextRef s" "d \<noteq> Suc (nextRef s)" "d \<noteq> Suc (Suc (nextRef s))" by simp_all
  show ?thesis using Some bd ne
    by (simp add: initializeBaseDef_def newObject_def newBaseDef_def setNgBaseDef_def
        fillProperties_def mapping_def
        visibleInputs_def visibleOutputs_def visibleDeclaredInputs_def Let_def numeral_3_eq_3 fun_upd_twist)
qed

lemma wellFormed_objs_update [simp]: "wellFormed (s\<lparr>objs := f\<rparr>) = wellFormed s"
  by (simp add: wellFormed_def ownBaseDef_def)

lemma wellFormed_emptyStore: "wellFormed emptyStore"
  by (simp add: wellFormed_def ownBaseDef_def emptyStore_def)

lemma wellFormed_initializeBaseDef:
  assumes "wellFormed s"
  shows "wellFormed (initializeBaseDef tg s)"
proof -
  let ?n = "nextRef s"
  let ?c = "constructor tg"
  let ?s' = "initializeBaseDef tg s"
  have own: "ownBaseDef ?s' c = (if c = ?c then Some (?n + 3) else ownBaseDef s c)" for c
    by (simp add: initializeBaseDef_eq[OF assms] ownBaseDef_def)
  have bds: "baseDefs ?s' b = (if b = ?n + 3 then \<lparr>inputs = Some ?n, outputs = Some (Suc ?n),
       declaredInputs = Some (Suc (Suc ?n))\<rparr> else baseDefs s b)" for b
    by (simp add: initializeBaseDef_eq[OF assms])
  have nx: "nextRef ?s' = ?n + 4"
    by (simp add: initializeBaseDef_eq[OF assms])
  have old: "b < ?n \<and> mapRefs (baseDefs s b) \<subseteq> {..<?n}" if "ownBaseDef s c = Some b" for c b
  proof -
    from wellFormed_ownD[OF assms that] obtain i ou d where
      "baseDefs s b = \<lparr>inputs = Some i, outputs = Some ou, declaredInputs = Some d\<rparr>"
      "b < ?n" "i < ?n" "ou < ?n" "d < ?n" by blast
    then show ?thesis by (simp add: mapRefs_def)
  qed
  have new: "mapRefs (baseDefs ?s' (?n + 3)) = {?n, Suc ?n, Suc (Suc ?n)}"
    by (simp add: bds mapRefs_def insert_commute)
  show ?thesis
    unfolding wellFormed_def
  proof (intro conjI allI impI)
    fix c b assume o: "ownBaseDef ?s' c = Some b"
    show "b < nextRef ?s'"
      using o old[of c b] by (auto simp: own nx split: if_splits)
    show "\<exists>i ou d. baseDefs ?s' b = \<lparr>inputs = Some i, outputs = Some ou, declaredInputs = Some d\<rparr> \<and>
           i < nextRef ?s' \<and> ou < nextRef ?s' \<and> d < nextRef ?s' \<and> i \<noteq> ou \<and> i \<noteq> d \<and> ou \<noteq> d"
    proof (cases "c = ?c")
      case True
      with o have "b = ?n + 3" by (simp add: own)
      then show ?thesis by (simp add: bds nx)
    next
      case False
      with o have ob: "ownBaseDef s c = Some b" by (simp add: own)
      from wellFormed_ownD[OF assms ob] obtain i ou d where
        "baseDefs s b = \<lparr>inputs = Some i, outputs = Some ou, declaredInputs = Some d\<rparr>"
        "b < ?n" "i < ?n" "ou < ?n" "d < ?n" "i \<noteq> ou" "i \<noteq> d" "ou \<noteq> d" by blast
      then show ?thesis by (auto simp: bds nx)
    qed
  next
    fix c c' b b'
    assume o: "ownBaseDef ?s' c = Some b" and o': "ownBaseDef ?s' c' = Some b'" and ne: "c \<noteq> c'"
    show "mapRefs (baseDefs ?s' b) \<inter> mapRefs (baseDefs ?s' b') = {}"
    proof (cases "c = ?c")
      case True
      with o have b: "b = ?n + 3" by (simp add: own)
      from True ne o' have ob': "ownBaseDef s c' = Some b'" by (simp add: own)
      from old[OF ob'] have "b' \<noteq> ?n + 3" "mapRefs (baseDefs ?s' b') \<subseteq> {..<?n}"
        by (auto simp: bds)
      with b new show ?thesis by auto
    next
      case False
      with o have ob: "ownBaseDef s c = Some b" by (simp add: own)
      from old[OF ob] have l: "b \<noteq> ?n + 3" "mapRefs (baseDefs ?s' b) \<subseteq> {..<?n}"
        by (auto simp: bds)
      show ?thesis
      proof (cases "c' = ?c")
        case True
        with o' have "b' = ?n + 3" by (simp add: own)
        with l new show ?thesis by auto
      next
        case False
        with o' have ob': "ownBaseDef s c' = Some b'" by (simp add: own)
        from old[OF ob'] have "b' \<noteq> ?n + 3" by auto
        moreover from assms ob ob' ne have "mapRefs (baseDefs s b) \<inter> mapRefs (baseDefs s b') = {}"
          unfolding wellFormed_def by blast
        ultimately show ?thesis using l(1) by (simp add: bds)
      qed
    qed
  qed
qed

lemma ensureBaseDef_own:
  "ownBaseDef s (constructor tg) = Some b \<Longrightarrow> ensureBaseDef tg s = s"
  by (simp add: ensureBaseDef_def hasOwnProperty_def NG_BASE_DEF_def ownBaseDef_def)

lemma ensureBaseDef_new:
  "ownBaseDef s (constructor tg) = None \<Longrightarrow> ensureBaseDef tg s = initializeBaseDef tg s"
  by (simp add: ensureBaseDef_def hasOwnProperty_def NG_BASE_DEF_def ownBaseDef_def)

lemma wellFormed_ensureBaseDef: "wellFormed s \<Longrightarrow> wellFormed (ensureBaseDef tg s)"
  by (simp add: ensureBaseDef_def wellFormed_initializeBaseDef)

lemma ctorProps_fillProperties [simp]: "ctorProps (fillProperties t src s) = ctorProps s"
  by (simp add: fillProperties_def split: option.splits)

lemma ownBaseDef_initializeBaseDef:
  "ownBaseDef (initializeBaseDef tg s) (constructor tg) = Some (nextRef s + 3)"
  by (cases "getNgBaseDef s (constructor tg)")
     (simp_all add: initializeBaseDef_def newObject_def newBaseDef_def setNgBaseDef_def
      ownBaseDef_def Let_def)

lemma ownBaseDef_ensureBaseDef:
  "\<exists>b. ownBaseDef (ensureBaseDef tg s) (constructor tg) = Some b"
  by (cases "ownBaseDef s (constructor tg)")
     (simp_all add: ensureBaseDef_new ensureBaseDef_own ownBaseDef_initializeBaseDef)

lemma getNgBaseDef_ensureBaseDef:
  "getNgBaseDef (ensureBaseDef tg s) (constructor tg) \<noteq> None"
proof -
  obtain b where "ownBaseDef (ensureBaseDef tg s) (constructor tg) = Some b"
    using ownBaseDef_ensureBaseDef by blast
  then show ?thesis by (simp add: getNgBaseDef_own)
qed

section \<open>The effect of an annotation\<close>

lemma Input_own:
  assumes "ownBaseDef s (constructor tg) = Some b" "inputs (baseDefs s b) = Some i"
  shows "Input args tg name s = s\<lparr>objs := (objs s)(i := assignProp (objs s i) name (arg0 args))\<rparr>"
  using assms
  by (simp add: Input_def updateBaseDefFromIOProp_def ensureBaseDef_own getNgBaseDef_own
      getInputs_def)

lemma Output_own:
  assumes "ownBaseDef s (constructor tg) = Some b" "outputs (baseDefs s b) = Some ou"
  shows "Output args tg name s = s\<lparr>objs := (objs s)(ou := assignProp (objs s ou) name (arg0 args))\<rparr>"
  using assms
  by (simp add: Output_def updateBaseDefFromIOProp_def ensureBaseDef_own getNgBaseDef_own
      getOutputs_def)

lemma Input_new:
  assumes "wellFormed s" "ownBaseDef s (constructor tg) = None"
  shows "Input args tg name s =
     s\<lparr>objs := (objs s)(nextRef s := assignProp (visibleInputs s (constructor tg)) name (arg0 args),
                         Suc (nextRef s) := visibleOutputs s (constructor tg),
                         Suc (Suc (nextRef s)) := visibleDeclaredInputs s (constructor tg)),
       baseDefs := (baseDefs s)(nextRef s + 3 :=
          \<lparr>inputs = Some (nextRef s), outputs = Some (Suc (nextRef s)),
           declaredInputs = Some (Suc (Suc (nextRef s)))\<rparr>),
       ctorProps := (ctorProps s)(constructor tg :=
          (ctorProps s (constructor tg))(''ngBaseDef'' \<mapsto> nextRef s + 3)),
       nextRef := nextRef s + 4\<rparr>"
proof -
  let ?s1 = "initializeBaseDef tg s"
  have o: "ownBaseDef ?s1 (constructor tg) = Some (nextRef s + 3)"
    by (rule ownBaseDef_initializeBaseDef)
  have i: "inputs (baseDefs ?s1 (nextRef s + 3)) = Some (nextRef s)"
    by (simp add: initializeBaseDef_eq[OF assms(1)])
  have h: "(objs ?s1)(nextRef s := assignProp (objs ?s1 (nextRef s)) name (arg0 args)) =
     (objs s)(nextRef s := assignProp (visibleInputs s (constructor tg)) name (arg0 args),
              Suc (nextRef s) := visibleOutputs s (constructor tg),
              Suc (Suc (nextRef s)) := visibleDeclaredInputs s (constructor tg))"
    by (auto simp: fun_eq_iff initializeBaseDef_eq[OF assms(1)])
  have "Input args tg name s = Input args tg name ?s1"
    by (simp add: Input_def updateBaseDefFromIOProp_def ensureBaseDef_new[OF assms(2)]
        ensureBaseDef_own[OF o])
  also have "\<dots> = ?s1\<lparr>objs := (objs ?s1)(nextRef s := assignProp (objs ?s1 (nextRef s)) name (arg0 args))\<rparr>"
    by (rule Input_own[OF o i])
  finally show ?thesis
    unfolding h by (simp add: initializeBaseDef_eq[OF assms(1)])
qed

lemma Output_new:
  assumes "wellFormed s" "ownBaseDef s (constructor tg) = None"
  shows "Output args tg name s =
     s\<lparr>objs := (objs s)(nextRef s := visibleInputs s (constructor tg),
                         Suc (nextRef s) := assignProp (visibleOutputs s (constructor tg)) name (arg0 args),
                         Suc (Suc (nextRef s)) := visibleDeclaredInputs s (constructor tg)),
       baseDefs := (baseDefs s)(nextRef s + 3 :=
          \<lparr>inputs = Some (nextRef s), outputs = Some (Suc (nextRef s)),
           declaredInputs = Some (Suc (Suc (nextRef s)))\<rparr>),
       ctorProps := (ctorProps s)(constructor tg :=
          (ctorProps s (constructor tg))(''ngBaseDef'' \<mapsto> nextRef s + 3)),
       nextRef := nextRef s + 4\<rparr>"
proof -
  let ?s1 = "initializeBaseDef tg s"
  have o: "ownBaseDef ?s1 (constructor tg) = Some (nextRef s + 3)"
    by (rule ownBaseDef_initializeBaseDef)
  have i: "outputs (baseDefs ?s1 (nextRef s + 3)) = Some (Suc (nextRef s))"
    by (simp add: initializeBaseDef_eq[OF assms(1)])
  have h: "(objs ?s1)(Suc (nextRef s) := assignProp (objs ?s1 (Suc (nextRef s))) name (arg0 args)) =
     (objs s)(nextRef s := visibleInputs s (constructor tg),
              Suc (nextRef s) := assignProp (visibleOutputs s (constructor tg)) name (arg0 args),
              Suc (Suc (nextRef s)) := visibleDeclaredInputs s (constructor tg))"
    by (auto simp: fun_eq_iff initializeBaseDef_eq[OF assms(1)])
  have "Output args tg name s = Output args tg name ?s1"
    by (simp add: Output_def updateBaseDefFromIOProp_def ensureBaseDef_new[OF assms(2)]
        ensureBaseDef_own[OF o])
  also have "\<dots> = ?s1\<lparr>objs := (objs ?s1)(Suc (nextRef s) := assignProp (objs ?s1 (Suc (nextRef s))) name (arg0 args))\<rparr>"
    by (rule Output_own[OF o i])
  finally show ?thesis
    unfolding h by (simp add: initializeBaseDef_eq[OF assms(1)])
qed

lemma wellFormed_Input: "wellFormed s \<Longrightarrow> wellFormed (Input args tg name s)"
proof (cases "ownBaseDef s (constructor tg)")
  case None
  assume w: "wellFormed s"
  have "Input args tg name s = (initializeBaseDef tg s)\<lparr>objs := objs (Input args tg name s)\<rparr>"
    by (simp add: Input_new[OF w None] initializeBaseDef_eq[OF w])
  then show ?thesis
    using wellFormed_initializeBaseDef[OF w, of tg] by (metis wellFormed_objs_update)
next
  case (Some b)
  assume w: "wellFormed s"
  from wellFormed_ownD[OF w Some] obtain i where "inputs (baseDefs s b) = Some i" by force
  from Input_own[OF Some this] w show ?thesis by simp
qed

lemma wellFormed_Output: "wellFormed s \<Longrightarrow> wellFormed (Output args tg name s)"
proof (cases "ownBaseDef s (constructor tg)")
  case None
  assume w: "wellFormed s"
  have "Output args tg name s = (initializeBaseDef tg s)\<lparr>objs := objs (Output args tg name s)\<rparr>"
    by (simp add: Output_new[OF w None] initializeBaseDef_eq[OF w])
  then show ?thesis
    using wellFormed_initializeBaseDef[OF w, of tg] by (metis wellFormed_objs_update)
next
  case (Some b)
  assume w: "wellFormed s"
  from wellFormed_ownD[OF w Some] obtain ou where "outputs (baseDefs s b) = Some ou" by force
  from Output_own[OF Some this] w show ?thesis by simp
qed

lemma wellFormed_annotate: "wellFormed s \<Longrightarrow> wellFormed (annotate a s)"
  by (cases a) (simp_all add: wellFormed_Input wellFormed_Output)

lemma wellFormed_annotateAll: "wellFormed s \<Longrightarrow> wellFormed (annotateAll as s)"
  by (induction as arbitrary: s) (simp_all add: wellFormed_annotate)

section \<open>The properties of the constructors\<close>

lemma ctorProps_initializeBaseDef:
  "ctorProps (initializeBaseDef tg s) =
     (ctorProps s)(constructor tg := (ctorProps s (constructor tg))(''ngBaseDef'' \<mapsto> nextRef s + 3))"
  by (cases "getNgBaseDef s (constructor tg)")
     (simp_all add: initializeBaseDef_def newObject_def newBaseDef_def setNgBaseDef_def Let_def
        numeral_3_eq_3)

lemma ctorProps_getInputs: "ctorProps (snd (getInputs bd s)) = ctorProps s"
  by (simp add: getInputs_def newObject_def split: option.splits)

lemma ctorProps_getOutputs: "ctorProps (snd (getOutputs bd s)) = ctorProps s"
  by (simp add: getOutputs_def newObject_def split: option.splits)

lemma ctorProps_Input: "ctorProps (Input args tg name s) = ctorProps (ensureBaseDef tg s)"
  by (simp add: Input_def updateBaseDefFromIOProp_def Let_def case_prod_unfold ctorProps_getInputs
      split: option.splits)

lemma ctorProps_Output: "ctorProps (Output args tg name s) = ctorProps (ensureBaseDef tg s)"
  by (simp add: Output_def updateBaseDefFromIOProp_def Let_def case_prod_unfold ctorProps_getOutputs
      split: option.splits)

lemma ownBaseDef_ensureBaseDef_keep:
  "ownBaseDef s c = Some b \<Longrightarrow> ownBaseDef (ensureBaseDef tg s) c = Some b"
  by (cases "ownBaseDef s (constructor tg)")
     (auto simp: ensureBaseDef_new ensureBaseDef_own ownBaseDef_def ctorProps_initializeBaseDef)

lemma ownBaseDef_annotate_keep:
  "ownBaseDef s c = Some b \<Longrightarrow> ownBaseDef (annotate a s) c = Some b"
  using ownBaseDef_ensureBaseDef_keep[of s c b]
  by (cases a) (simp_all add: ownBaseDef_def ctorProps_Input ctorProps_Output)

lemma ownBaseDef_annotateAll_keep:
  "ownBaseDef s c = Some b \<Longrightarrow> ownBaseDef (annotateAll as s) c = Some b"
  by (induction as arbitrary: s) (simp_all add: ownBaseDef_annotate_keep)

section \<open>What a class sees after an annotation\<close>

lemma getNgBaseDef_cong:
  "ctorProps s' = ctorProps s \<Longrightarrow> getNgBaseDef s' c = getNgBaseDef s c"
  by (induction c) (simp_all split: option.splits)

lemma getNgBaseDef_objs_update [simp]: "getNgBaseDef (s\<lparr>objs := f\<rparr>) c = getNgBaseDef s c"
  by (rule getNgBaseDef_cong) simp

lemma ownBaseDef_objs_update [simp]: "ownBaseDef (s\<lparr>objs := f\<rparr>) c = ownBaseDef s c"
  by (simp add: ownBaseDef_def)

lemma Input_as_write:
  assumes "wellFormed s"
  shows "\<exists>b i ou d. ownBaseDef (ensureBaseDef tg s) (constructor tg) = Some b \<and>
     baseDefs (ensureBaseDef tg s) b = \<lparr>inputs = Some i, outputs = Some ou, declaredInputs = Some d\<rparr> \<and>
     i \<noteq> ou \<and> i \<noteq> d \<and> ou \<noteq> d \<and>
     Input args tg name s =
       (ensureBaseDef tg s)\<lparr>objs := (objs (ensureBaseDef tg s))
          (i := assignProp (objs (ensureBaseDef tg s) i) name (arg0 args))\<rparr>"
proof -
  let ?s1 = "ensureBaseDef tg s"
  obtain b where b: "ownBaseDef ?s1 (constructor tg) = Some b"
    using ownBaseDef_ensureBaseDef by blast
  from wellFormed_ownD[OF wellFormed_ensureBaseDef[OF assms] b] obtain i ou d where
    bd: "baseDefs ?s1 b = \<lparr>inputs = Some i, outputs = Some ou, declaredInputs = Some d\<rparr>"
    and ne: "i \<noteq> ou" "i \<noteq> d" "ou \<noteq> d" by blast
  have "Input args tg name s = Input args tg name ?s1"
    by (simp add: Input_def updateBaseDefFromIOProp_def ensureBaseDef_own[OF b])
  also have "\<dots> = ?s1\<lparr>objs := (objs ?s1)(i := assignProp (objs ?s1 i) name (arg0 args))\<rparr>"
    by (rule Input_own[OF b]) (simp add: bd)
  finally show ?thesis using b bd ne by blast
qed

lemma Output_as_write:
  assumes "wellFormed s"
  shows "\<exists>b i ou d. ownBaseDef (ensureBaseDef tg s) (constructor tg) = Some b \<and>
     baseDefs (ensureBaseDef tg s) b = \<lparr>inputs = Some i, outputs = Some ou, declaredInputs = Some d\<rparr> \<and>
     i \<noteq> ou \<and> i \<noteq> d \<and> ou \<noteq> d \<and>
     Output args tg name s =
       (ensureBaseDef tg s)\<lparr>objs := (objs (ensureBaseDef tg s))
          (ou := assignProp (objs (ensureBaseDef tg s) ou) name (arg0 args))\<rparr>"
proof -
  let ?s1 = "ensureBaseDef tg s"
  obtain b where b: "ownBaseDef ?s1 (constructor tg) = Some b"
    using ownBaseDef_ensureBaseDef by blast
  from wellFormed_ownD[OF wellFormed_ensureBaseDef[OF assms] b] obtain i ou d where
    bd: "baseDefs ?s1 b = \<lparr>inputs = Some i, outputs = Some ou, declaredInputs = Some d\<rparr>"
    and ne: "i \<noteq> ou" "i \<noteq> d" "ou \<noteq> d" by blast
  have "Output args tg name s = Output args tg name ?s1"
    by (simp add: Output_def updateBaseDefFromIOProp_def ensureBaseDef_own[OF b])
  also have "\<dots> = ?s1\<lparr>objs := (objs ?s1)(ou := assignProp (objs ?s1 ou) name (arg0 args))\<rparr>"
    by (rule Output_own[OF b]) (simp add: bd)
  finally show ?thesis using b bd ne by blast
qed

text \<open>What a class sees is kept when its descriptor is created: the new mappings are copies.\<close>

lemma visible_ensureBaseDef_self:
  assumes "wellFormed s"
  shows "\<exists>b i ou d. ownBaseDef (ensureBaseDef tg s) (constructor tg) = Some b \<and>
     baseDefs (ensureBaseDef tg s) b = \<lparr>inputs = Some i, outputs = Some ou, declaredInputs = Some d\<rparr> \<and>
     objs (ensureBaseDef tg s) i = visibleInputs s (constructor tg) \<and>
     objs (ensureBaseDef tg s) ou = visibleOutputs s (constructor tg) \<and>
     objs (ensureBaseDef tg s) d = visibleDeclaredInputs s (constructor tg)"
proof (cases "ownBaseDef s (constructor tg)")
  case None
  show ?thesis
    by (simp add: ensureBaseDef_new[OF None] initializeBaseDef_eq[OF assms] ownBaseDef_def)
next
  case (Some b)
  from wellFormed_ownD[OF assms Some] obtain i ou d where
    "baseDefs s b = \<lparr>inputs = Some i, outputs = Some ou, declaredInputs = Some d\<rparr>" by blast
  with Some show ?thesis
    by (simp add: ensureBaseDef_own[OF Some] visibleInputs_def visibleOutputs_def
        visibleDeclaredInputs_def getNgBaseDef_own mapping_def)
qed


lemma Output_effect:
  assumes "wellFormed s"
  shows "\<exists>b i ou d. ownBaseDef (Output args tg name s) (constructor tg) = Some b \<and>
     baseDefs (Output args tg name s) b = \<lparr>inputs = Some i, outputs = Some ou, declaredInputs = Some d\<rparr> \<and>
     objs (Output args tg name s) i = visibleInputs s (constructor tg) \<and>
     objs (Output args tg name s) ou = assignProp (visibleOutputs s (constructor tg)) name (arg0 args) \<and>
     objs (Output args tg name s) d = visibleDeclaredInputs s (constructor tg)"
proof -
  let ?s1 = "ensureBaseDef tg s"
  from visible_ensureBaseDef_self[OF assms, of tg] obtain b i ou d where
    b: "ownBaseDef ?s1 (constructor tg) = Some b"
    and bd: "baseDefs ?s1 b = \<lparr>inputs = Some i, outputs = Some ou, declaredInputs = Some d\<rparr>"
    and v: "objs ?s1 i = visibleInputs s (constructor tg)"
       "objs ?s1 ou = visibleOutputs s (constructor tg)"
       "objs ?s1 d = visibleDeclaredInputs s (constructor tg)" by blast
  from wellFormed_ownD[OF wellFormed_ensureBaseDef[OF assms] b] bd
  have ne: "i \<noteq> ou" "ou \<noteq> d" by auto
  have "Output args tg name s = Output args tg name ?s1"
    by (simp add: Output_def updateBaseDefFromIOProp_def ensureBaseDef_own[OF b])
  also have "\<dots> = ?s1\<lparr>objs := (objs ?s1)(ou := assignProp (objs ?s1 ou) name (arg0 args))\<rparr>"
    by (rule Output_own[OF b]) (simp add: bd)
  finally have e: "Output args tg name s =
    ?s1\<lparr>objs := (objs ?s1)(ou := assignProp (objs ?s1 ou) name (arg0 args))\<rparr>" .
  show ?thesis
    unfolding e using b bd v ne by simp
qed

section \<open>The descriptors of other classes\<close>

lemma mapRefs_simp [simp]:
  "mapRefs \<lparr>inputs = Some i, outputs = Some ou, declaredInputs = Some d\<rparr> = {i, ou, d}"
  by (auto simp: mapRefs_def)

lemma ensureBaseDef_frame:
  assumes "wellFormed s" "ownBaseDef s c' = Some b'"
  shows "ownBaseDef (ensureBaseDef tg s) c' = Some b' \<and>
         baseDefs (ensureBaseDef tg s) b' = baseDefs s b' \<and>
         (\<forall>r \<in> mapRefs (baseDefs s b'). objs (ensureBaseDef tg s) r = objs s r)"
proof (cases "ownBaseDef s (constructor tg)")
  case None
  from wellFormed_ownD[OF assms] obtain i ou d where
    bd: "baseDefs s b' = \<lparr>inputs = Some i, outputs = Some ou, declaredInputs = Some d\<rparr>"
    and lt: "b' < nextRef s" "i < nextRef s" "ou < nextRef s" "d < nextRef s" by blast
  from None assms(2) have ne: "c' \<noteq> constructor tg" by auto
  show ?thesis
    using bd lt ne assms(2)
    by (simp add: ensureBaseDef_new[OF None] initializeBaseDef_eq[OF assms(1)] ownBaseDef_def)
next
  case (Some b)
  then show ?thesis using assms(2) by (simp add: ensureBaseDef_own)
qed

lemma wellFormed_disjoint:
  assumes "wellFormed s" "ownBaseDef s c = Some b" "ownBaseDef s c' = Some b'" "c \<noteq> c'"
    "r \<in> mapRefs (baseDefs s b)"
  shows "r \<notin> mapRefs (baseDefs s b')"
  using assms unfolding wellFormed_def by blast

lemma Input_frame:
  assumes "wellFormed s" "ownBaseDef s c' = Some b'" "c' \<noteq> constructor tg"
  shows "ownBaseDef (Input args tg name s) c' = Some b' \<and>
         baseDefs (Input args tg name s) b' = baseDefs s b' \<and>
         (\<forall>r \<in> mapRefs (baseDefs s b'). objs (Input args tg name s) r = objs s r)"
proof -
  let ?s1 = "ensureBaseDef tg s"
  from Input_as_write[OF assms(1), of tg args name] obtain b i ou d where
    b: "ownBaseDef ?s1 (constructor tg) = Some b"
    and bd: "baseDefs ?s1 b = \<lparr>inputs = Some i, outputs = Some ou, declaredInputs = Some d\<rparr>"
    and e: "Input args tg name s = ?s1\<lparr>objs := (objs ?s1)(i := assignProp (objs ?s1 i) name (arg0 args))\<rparr>"
    by blast
  from ensureBaseDef_frame[OF assms(1,2), of tg] have
    f: "ownBaseDef ?s1 c' = Some b'" "baseDefs ?s1 b' = baseDefs s b'"
       "\<forall>r \<in> mapRefs (baseDefs s b'). objs ?s1 r = objs s r" by simp_all
  have "i \<in> mapRefs (baseDefs ?s1 b)" by (simp add: bd)
  from wellFormed_disjoint[OF wellFormed_ensureBaseDef[OF assms(1)] b f(1) _ this] assms(3)
  have "i \<notin> mapRefs (baseDefs s b')" by (auto simp: f(2))
  with f show ?thesis unfolding e by auto
qed

lemma Output_frame:
  assumes "wellFormed s" "ownBaseDef s c' = Some b'" "c' \<noteq> constructor tg"
  shows "ownBaseDef (Output args tg name s) c' = Some b' \<and>
         baseDefs (Output args tg name s) b' = baseDefs s b' \<and>
         (\<forall>r \<in> mapRefs (baseDefs s b'). objs (Output args tg name s) r = objs s r)"
proof -
  let ?s1 = "ensureBaseDef tg s"
  from Output_as_write[OF assms(1), of tg args name] obtain b i ou d where
    b: "ownBaseDef ?s1 (constructor tg) = Some b"
    and bd: "baseDefs ?s1 b = \<lparr>inputs = Some i, outputs = Some ou, declaredInputs = Some d\<rparr>"
    and e: "Output args tg name s = ?s1\<lparr>objs := (objs ?s1)(ou := assignProp (objs ?s1 ou) name (arg0 args))\<rparr>"
    by blast
  from ensureBaseDef_frame[OF assms(1,2), of tg] have
    f: "ownBaseDef ?s1 c' = Some b'" "baseDefs ?s1 b' = baseDefs s b'"
       "\<forall>r \<in> mapRefs (baseDefs s b'). objs ?s1 r = objs s r" by simp_all
  have "ou \<in> mapRefs (baseDefs ?s1 b)" by (simp add: bd)
  from wellFormed_disjoint[OF wellFormed_ensureBaseDef[OF assms(1)] b f(1) _ this] assms(3)
  have "ou \<notin> mapRefs (baseDefs s b')" by (auto simp: f(2))
  with f show ?thesis unfolding e by auto
qed

lemma ancestors_smaller: "S \<in> set (ancestors D) \<Longrightarrow> size S < size D"
  by (induction D) auto

lemma ancestors_neq: "S \<in> set (ancestors D) \<Longrightarrow> S \<noteq> D"
  using ancestors_smaller by blast

lemma visible_inherited:
  assumes "ownBaseDef s (Extends n S) = None"
  shows "visibleInputs s (Extends n S) = visibleInputs s S"
    "visibleOutputs s (Extends n S) = visibleOutputs s S"
    "visibleDeclaredInputs s (Extends n S) = visibleDeclaredInputs s S"
  using assms
  by (simp_all add: visibleInputs_def visibleOutputs_def visibleDeclaredInputs_def ownBaseDef_def)

section \<open>A store for examples\<close>

text \<open>A class \<open>Class 0\<close> with the input \<open>a\<close> bound to \<open>"a"\<close>, and what its subclass sees.\<close>

lemma example_store:
  "Input [Str ''a''] (Target (Class 0)) ''a'' emptyStore =
     \<lparr>objs = (\<lambda>_. Map.empty)(0 := [''a'' \<mapsto> Str ''a'']),
      baseDefs = (\<lambda>_. \<lparr>inputs = None, outputs = None, declaredInputs = None\<rparr>)
        (3 := \<lparr>inputs = Some 0, outputs = Some 1, declaredInputs = Some 2\<rparr>),
      ctorProps = (\<lambda>_. Map.empty)(Class 0 := [''ngBaseDef'' \<mapsto> 3]),
      nextRef = 4\<rparr>"
  by (simp add: Input_def updateBaseDefFromIOProp_def ensureBaseDef_def hasOwnProperty_def
      NG_BASE_DEF_def emptyStore_def initializeBaseDef_def newObject_def newBaseDef_def
      setNgBaseDef_def getInputs_def assignProp_def Let_def fun_eq_iff)

lemma example_store_facts:
  "wellFormed (Input [Str ''a''] (Target (Class 0)) ''a'' emptyStore)"
  "ownBaseDef (Input [Str ''a''] (Target (Class 0)) ''a'' emptyStore) (Class 0) = Some 3"
  "getNgBaseDef (Input [Str ''a''] (Target (Class 0)) ''a'' emptyStore) (Class 0) = Some 3"
  "ownBaseDef (Input [Str ''a''] (Target (Class 0)) ''a'' emptyStore) (Extends 1 (Class 0)) = None"
  "mapping (Input [Str ''a''] (Target (Class 0)) ''a'' emptyStore)
     (inputs (baseDefs (Input [Str ''a''] (Target (Class 0)) ''a'' emptyStore) 3)) =
       [''a'' \<mapsto> Str ''a'']"
  "mapping (Input [Str ''a''] (Target (Class 0)) ''a'' emptyStore)
     (outputs (baseDefs (Input [Str ''a''] (Target (Class 0)) ''a'' emptyStore) 3)) = Map.empty"
  "mapping (Input [Str ''a''] (Target (Class 0)) ''a'' emptyStore)
     (declaredInputs (baseDefs (Input [Str ''a''] (Target (Class 0)) ''a'' emptyStore) 3)) = Map.empty"
  "inputs (baseDefs (Input [Str ''a''] (Target (Class 0)) ''a'' emptyStore) 3) = Some 0"
  "objs (Input [Str ''a''] (Target (Class 0)) ''a'' emptyStore) 0 = [''a'' \<mapsto> Str ''a'']"
  "nextRef (Input [Str ''a''] (Target (Class 0)) ''a'' emptyStore) = 4"
        apply (rule wellFormed_Input[OF wellFormed_emptyStore])
       apply (simp_all add: example_store ownBaseDef_def mapping_def)
  done


section \<open>The declaredInputs a class sees\<close>

lemma getNgBaseDef_after_create:
  assumes "ctorProps s' = (ctorProps s)(t := (ctorProps s t)(''ngBaseDef'' \<mapsto> bn))"
  shows "(getNgBaseDef s' c = Some bn \<and> getNgBaseDef s c = getNgBaseDef s t) \<or>
         getNgBaseDef s' c = getNgBaseDef s c"
proof (induction c)
  case (Class n)
  show ?case using assms by (cases "Class n = t") auto
next
  case (Extends n p)
  show ?case
  proof (cases "Extends n p = t")
    case True
    then show ?thesis using assms by auto
  next
    case False
    then show ?thesis using assms Extends.IH
      by (cases "ctorProps s (Extends n p) ''ngBaseDef''") auto
  qed
qed

lemma visibleDeclaredInputs_cong:
  "getNgBaseDef s c = getNgBaseDef s c' \<Longrightarrow> visibleDeclaredInputs s c = visibleDeclaredInputs s c'"
  by (simp add: visibleDeclaredInputs_def)

lemma visibleDeclaredInputs_ensureBaseDef:
  assumes "wellFormed s"
  shows "visibleDeclaredInputs (ensureBaseDef tg s) c = visibleDeclaredInputs s c"
proof (cases "ownBaseDef s (constructor tg)")
  case (Some b)
  then show ?thesis by (simp add: ensureBaseDef_own)
next
  case None
  let ?n = "nextRef s"
  let ?s1 = "initializeBaseDef tg s"
  have e: "ensureBaseDef tg s = ?s1" by (rule ensureBaseDef_new[OF None])
  have cp: "ctorProps ?s1 = (ctorProps s)(constructor tg :=
      (ctorProps s (constructor tg))(''ngBaseDef'' \<mapsto> ?n + 3))"
    by (rule ctorProps_initializeBaseDef)
  from getNgBaseDef_after_create[OF cp, of c]
  show ?thesis
  proof
    assume a: "getNgBaseDef ?s1 c = Some (?n + 3) \<and> getNgBaseDef s c = getNgBaseDef s (constructor tg)"
    have n: "declaredInputs (baseDefs ?s1 (?n + 3)) = Some (Suc (Suc ?n))"
      "objs ?s1 (Suc (Suc ?n)) = visibleDeclaredInputs s (constructor tg)"
      by (simp_all add: initializeBaseDef_eq[OF assms])
    have "visibleDeclaredInputs ?s1 c = visibleDeclaredInputs s (constructor tg)"
      using a n by (simp add: visibleDeclaredInputs_def[of ?s1] mapping_def)
    also have "\<dots> = visibleDeclaredInputs s c"
      by (rule visibleDeclaredInputs_cong) (simp add: a)
    finally show ?thesis by (simp add: e)
  next
    assume a: "getNgBaseDef ?s1 c = getNgBaseDef s c"
    show ?thesis
    proof (cases "getNgBaseDef s c")
      case None
      with a show ?thesis by (simp add: e visibleDeclaredInputs_def)
    next
      case (Some b0)
      from wellFormed_visibleD[OF assms Some] obtain i ou d where
        bd: "baseDefs s b0 = \<lparr>inputs = Some i, outputs = Some ou, declaredInputs = Some d\<rparr>"
        and lt: "b0 < ?n" "d < ?n" by blast
      from lt have "baseDefs ?s1 b0 = baseDefs s b0" "objs ?s1 d = objs s d"
        by (simp_all add: initializeBaseDef_eq[OF assms])
      with a Some bd show ?thesis
        by (simp add: e visibleDeclaredInputs_def mapping_def)
    qed
  qed
qed

lemma visibleDeclaredInputs_write:
  assumes "wellFormed s" "ownBaseDef s t = Some b"
    "baseDefs s b = \<lparr>inputs = Some i, outputs = Some ou, declaredInputs = Some d\<rparr>"
    "r = i \<or> r = ou"
  shows "visibleDeclaredInputs (s\<lparr>objs := (objs s)(r := m)\<rparr>) c = visibleDeclaredInputs s c"
proof (cases "getNgBaseDef s c")
  case None
  then show ?thesis by (simp add: visibleDeclaredInputs_def)
next
  case (Some b0)
  from getNgBaseDef_owner[OF Some] obtain c0 where c0: "ownBaseDef s c0 = Some b0" by blast
  from wellFormed_ownD[OF assms(1) c0] obtain i0 ou0 d0 where
    bd0: "baseDefs s b0 = \<lparr>inputs = Some i0, outputs = Some ou0, declaredInputs = Some d0\<rparr>"
    and ne0: "i0 \<noteq> d0" "ou0 \<noteq> d0" by blast
  have "d0 \<noteq> r"
  proof (cases "c0 = t")
    case True
    with c0 assms(2) have "b0 = b" by simp
    with bd0 assms(3) ne0 assms(4) show ?thesis by auto
  next
    case False
    have "r \<in> mapRefs (baseDefs s b)" using assms(3,4) by auto
    from wellFormed_disjoint[OF assms(1,2) c0 _ this] False
    show ?thesis by (auto simp: bd0)
  qed
  with Some bd0 show ?thesis by (simp add: visibleDeclaredInputs_def mapping_def)
qed

lemma visibleDeclaredInputs_Input:
  assumes "wellFormed s"
  shows "visibleDeclaredInputs (Input args tg name s) c = visibleDeclaredInputs s c"
proof -
  let ?s1 = "ensureBaseDef tg s"
  from Input_as_write[OF assms, of tg args name] obtain b i ou d where
    b: "ownBaseDef ?s1 (constructor tg) = Some b"
    and bd: "baseDefs ?s1 b = \<lparr>inputs = Some i, outputs = Some ou, declaredInputs = Some d\<rparr>"
    and e: "Input args tg name s = ?s1\<lparr>objs := (objs ?s1)(i := assignProp (objs ?s1 i) name (arg0 args))\<rparr>"
    by blast
  show ?thesis
    unfolding e
    by (simp add: visibleDeclaredInputs_write[OF wellFormed_ensureBaseDef[OF assms] b bd]
        visibleDeclaredInputs_ensureBaseDef[OF assms])
qed

lemma visibleDeclaredInputs_Output:
  assumes "wellFormed s"
  shows "visibleDeclaredInputs (Output args tg name s) c = visibleDeclaredInputs s c"
proof -
  let ?s1 = "ensureBaseDef tg s"
  from Output_as_write[OF assms, of tg args name] obtain b i ou d where
    b: "ownBaseDef ?s1 (constructor tg) = Some b"
    and bd: "baseDefs ?s1 b = \<lparr>inputs = Some i, outputs = Some ou, declaredInputs = Some d\<rparr>"
    and e: "Output args tg name s = ?s1\<lparr>objs := (objs ?s1)(ou := assignProp (objs ?s1 ou) name (arg0 args))\<rparr>"
    by blast
  show ?thesis
    unfolding e
    by (simp add: visibleDeclaredInputs_write[OF wellFormed_ensureBaseDef[OF assms] b bd]
        visibleDeclaredInputs_ensureBaseDef[OF assms])
qed

lemma visibleDeclaredInputs_annotate:
  "wellFormed s \<Longrightarrow> visibleDeclaredInputs (annotate a s) c = visibleDeclaredInputs s c"
  by (cases a) (simp_all add: visibleDeclaredInputs_Input visibleDeclaredInputs_Output)

lemma visibleDeclaredInputs_annotateAll:
  "wellFormed s \<Longrightarrow> visibleDeclaredInputs (annotateAll as s) c = visibleDeclaredInputs s c"
  by (induction as arbitrary: s)
     (simp_all add: visibleDeclaredInputs_annotate wellFormed_annotate)

lemma visibleDeclaredInputs_own:
  "ownBaseDef s c = Some b \<Longrightarrow>
     visibleDeclaredInputs s c = mapping s (declaredInputs (baseDefs s b))"
  by (simp add: visibleDeclaredInputs_def getNgBaseDef_own)

section \<open>The inherited entries are a snapshot\<close>



section \<open>The alias recorded when none is given\<close>

text \<open>
  Claim C2 says that \<^verbatim>\<open>@Input()\<close> on a property \<^verbatim>\<open>foo\<close>, with no binding name, records
  \<^verbatim>\<open>inputs.foo = "foo"\<close>. The source stores \<^verbatim>\<open>args[0]\<close> as it is, so on a class without a
  descriptor the entry recorded for \<^verbatim>\<open>foo\<close> is \<^verbatim>\<open>undefined\<close>, both when the decorator has
  no argument and when \<^verbatim>\<open>undefined\<close> is passed; it is not the string \<^verbatim>\<open>"foo"\<close>.
\<close>

theorem Input_without_alias_records_undefined:
  "visibleInputs (Input [] (Target (Class 0)) ''foo'' emptyStore) (Class 0) ''foo'' = Some Undefined \<and>
   visibleInputs (Input [Undefined] (Target (Class 0)) ''foo'' emptyStore) (Class 0) ''foo'' = Some Undefined \<and>
   visibleInputs (Input [] (Target (Class 0)) ''foo'' emptyStore) (Class 0) ''foo'' \<noteq> Some (Str ''foo'')"
  by (simp add: Input_def updateBaseDefFromIOProp_def ensureBaseDef_def hasOwnProperty_def
      NG_BASE_DEF_def emptyStore_def initializeBaseDef_def newObject_def newBaseDef_def
      setNgBaseDef_def getInputs_def assignProp_def visibleInputs_def mapping_def Let_def)

section \<open>A binding overwrites the entry of its property\<close>



section \<open>Descriptor creation happens once\<close>

text \<open>
  Claim C4. The guard that creates a descriptor is idempotent: running it a second time,
  with nothing in between, returns the store of the first run, in which the class owns a
  descriptor; so both runs yield the same descriptor object. And a descriptor that a class
  owns is never replaced: after any sequence of \<^verbatim>\<open>Input\<close> and \<^verbatim>\<open>Output\<close> annotations, on
  any classes, the class still owns the same descriptor object.
\<close>

theorem ensureBaseDef_idempotent:
  "ensureBaseDef tg (ensureBaseDef tg s) = ensureBaseDef tg s \<and>
   ownBaseDef (ensureBaseDef tg s) (constructor tg) \<noteq> None \<and>
   (\<forall>b. ownBaseDef s' c = Some b \<longrightarrow> ownBaseDef (annotateAll as s') c = Some b)"
proof -
  obtain b where b: "ownBaseDef (ensureBaseDef tg s) (constructor tg) = Some b"
    using ownBaseDef_ensureBaseDef by blast
  from b have "ensureBaseDef tg (ensureBaseDef tg s) = ensureBaseDef tg s"
    by (rule ensureBaseDef_own)
  with b show ?thesis by (simp add: ownBaseDef_annotateAll_keep)
qed

theorem ensureBaseDef_idempotent_witness:
  "ensureBaseDef (Target (Class 0)) (ensureBaseDef (Target (Class 0)) emptyStore) =
     ensureBaseDef (Target (Class 0)) emptyStore \<and>
   ownBaseDef (ensureBaseDef (Target (Class 0)) emptyStore) (Class 0) \<noteq> None \<and>
   ownBaseDef (Input [] (Target (Class 0)) ''x'' emptyStore) (Class 0) = Some 3 \<and>
   ownBaseDef (annotateAll [InputAnn [Str ''a''] (Target (Class 0)) ''x'',
                            OutputAnn [] (Target (Extends 1 (Class 0))) ''y'']
      (Input [] (Target (Class 0)) ''x'' emptyStore)) (Class 0) = Some 3"
proof -
  have o: "ownBaseDef (Input [] (Target (Class 0)) ''x'' emptyStore) (Class 0) = Some 3"
    by (simp add: ownBaseDef_def ctorProps_Input ensureBaseDef_def hasOwnProperty_def
        NG_BASE_DEF_def ctorProps_initializeBaseDef emptyStore_def)
  from ensureBaseDef_idempotent[where tg = "Target (Class 0)" and s = emptyStore and c = "Class 0"
      and s' = "Input [] (Target (Class 0)) ''x'' emptyStore"
      and as = "[InputAnn [Str ''a''] (Target (Class 0)) ''x'',
        OutputAnn [] (Target (Extends 1 (Class 0))) ''y'']"] o
  show ?thesis by simp
qed

section \<open>What a new descriptor inherits\<close>

text \<open>
  Claim C5. Let \<open>D\<close> extend \<open>S\<close>, let \<open>D\<close> own no descriptor, and let a descriptor \<open>bS\<close> be visible
  on \<open>S\<close> (its own or an inherited one). Then \<^verbatim>\<open>initializeBaseDef\<close> gives \<open>D\<close> a descriptor of
  its own that is newly created: the descriptor object and its three mapping objects were not
  allocated before, the three are distinct, no class owned the descriptor, it is not \<open>bS\<close>,
  and its mappings are objects of neither \<open>bS\<close> nor the descriptor of any class. Its
  \<^verbatim>\<open>inputs\<close>, \<^verbatim>\<open>outputs\<close> and \<^verbatim>\<open>declaredInputs\<close> mappings are equal to the corresponding
  mappings of \<open>bS\<close> at that moment, so each contains every entry of the superclass's mapping;
  and \<open>bS\<close> keeps its three mappings as they were, so the entries are copied, not moved or
  shared.
\<close>

theorem new_descriptor_contains_inherited:
  assumes "wellFormed s" and "ownBaseDef s (Extends n S) = None" and "getNgBaseDef s S = Some bS"
  shows "\<exists>b i ou d.
     ownBaseDef (initializeBaseDef (Target (Extends n S)) s) (Extends n S) = Some b \<and>
     baseDefs (initializeBaseDef (Target (Extends n S)) s) b =
       \<lparr>inputs = Some i, outputs = Some ou, declaredInputs = Some d\<rparr> \<and>
     nextRef s \<le> b \<and> nextRef s \<le> i \<and> nextRef s \<le> ou \<and> nextRef s \<le> d \<and>
     i \<noteq> ou \<and> i \<noteq> d \<and> ou \<noteq> d \<and>
     b \<noteq> bS \<and> (\<forall>c. ownBaseDef s c \<noteq> Some b) \<and>
     mapRefs (baseDefs s bS) \<inter> {i, ou, d} = {} \<and>
     (\<forall>c b'. ownBaseDef s c = Some b' \<longrightarrow> mapRefs (baseDefs s b') \<inter> {i, ou, d} = {}) \<and>
     baseDefs (initializeBaseDef (Target (Extends n S)) s) bS = baseDefs s bS \<and>
     mapping (initializeBaseDef (Target (Extends n S)) s) (inputs (baseDefs s bS)) =
       mapping s (inputs (baseDefs s bS)) \<and>
     mapping (initializeBaseDef (Target (Extends n S)) s) (outputs (baseDefs s bS)) =
       mapping s (outputs (baseDefs s bS)) \<and>
     mapping (initializeBaseDef (Target (Extends n S)) s) (declaredInputs (baseDefs s bS)) =
       mapping s (declaredInputs (baseDefs s bS)) \<and>
     objs (initializeBaseDef (Target (Extends n S)) s) i = mapping s (inputs (baseDefs s bS)) \<and>
     objs (initializeBaseDef (Target (Extends n S)) s) ou = mapping s (outputs (baseDefs s bS)) \<and>
     objs (initializeBaseDef (Target (Extends n S)) s) d = mapping s (declaredInputs (baseDefs s bS)) \<and>
     (\<forall>k v. mapping s (inputs (baseDefs s bS)) k = Some v \<longrightarrow>
        objs (initializeBaseDef (Target (Extends n S)) s) i k = Some v) \<and>
     (\<forall>k v. mapping s (outputs (baseDefs s bS)) k = Some v \<longrightarrow>
        objs (initializeBaseDef (Target (Extends n S)) s) ou k = Some v) \<and>
     (\<forall>k v. mapping s (declaredInputs (baseDefs s bS)) k = Some v \<longrightarrow>
        objs (initializeBaseDef (Target (Extends n S)) s) d k = Some v)"
proof -
  let ?D = "Extends n S"
  let ?n = "nextRef s"
  let ?s' = "initializeBaseDef (Target ?D) s"
  from wellFormed_visibleD[OF assms(1,3)] obtain iS oS dS where
    bdS: "baseDefs s bS = \<lparr>inputs = Some iS, outputs = Some oS, declaredInputs = Some dS\<rparr>"
    and lt: "bS < ?n" "iS < ?n" "oS < ?n" "dS < ?n" by blast
  have old: "b' < ?n \<and> mapRefs (baseDefs s b') \<inter> {?n, Suc ?n, Suc (Suc ?n)} = {}"
    if "ownBaseDef s c = Some b'" for c b'
  proof -
    from wellFormed_ownD[OF assms(1) that] obtain i' ou' d' where
      "baseDefs s b' = \<lparr>inputs = Some i', outputs = Some ou', declaredInputs = Some d'\<rparr>"
      "b' < ?n" "i' < ?n" "ou' < ?n" "d' < ?n" by blast
    then show ?thesis by simp
  qed
  have own: "ownBaseDef ?s' ?D = Some (?n + 3)"
    using ownBaseDef_initializeBaseDef[of "Target ?D" s] by simp
  have bd: "baseDefs ?s' (?n + 3) =
      \<lparr>inputs = Some ?n, outputs = Some (Suc ?n), declaredInputs = Some (Suc (Suc ?n))\<rparr>"
    by (simp add: initializeBaseDef_eq[OF assms(1)])
  have vis: "visibleInputs s ?D = objs s iS" "visibleOutputs s ?D = objs s oS"
    "visibleDeclaredInputs s ?D = objs s dS"
    unfolding visible_inherited[OF assms(2)] using assms(3) bdS
    by (simp_all add: visibleInputs_def visibleOutputs_def visibleDeclaredInputs_def mapping_def)
  have new: "objs ?s' ?n = objs s iS" "objs ?s' (Suc ?n) = objs s oS"
    "objs ?s' (Suc (Suc ?n)) = objs s dS"
    by (simp_all add: initializeBaseDef_eq[OF assms(1)] vis)
  have keep: "baseDefs ?s' bS = baseDefs s bS" "objs ?s' iS = objs s iS"
    "objs ?s' oS = objs s oS" "objs ?s' dS = objs s dS"
    using lt by (simp_all add: initializeBaseDef_eq[OF assms(1)])
  have fresh: "\<forall>c. ownBaseDef s c \<noteq> Some (?n + 3)"
    using old by fastforce
  have share: "\<forall>c b'. ownBaseDef s c = Some b' \<longrightarrow>
      mapRefs (baseDefs s b') \<inter> {?n, Suc ?n, Suc (Suc ?n)} = {}"
    using old by blast
  have shareS: "mapRefs (baseDefs s bS) \<inter> {?n, Suc ?n, Suc (Suc ?n)} = {}"
    using lt by (simp add: bdS)
  have neS: "?n + 3 \<noteq> bS" using lt by simp
  show ?thesis
    apply (rule exI[of _ "?n + 3"], rule exI[of _ ?n], rule exI[of _ "Suc ?n"],
        rule exI[of _ "Suc (Suc ?n)"])
    using own bd new keep fresh share shareS neS
    by (simp add: bdS mapping_def)
qed

theorem new_descriptor_contains_inherited_witness:
  "wellFormed (Input [Str ''a''] (Target (Class 0)) ''a'' emptyStore) \<and>
   ownBaseDef (Input [Str ''a''] (Target (Class 0)) ''a'' emptyStore) (Extends 1 (Class 0)) = None \<and>
   getNgBaseDef (Input [Str ''a''] (Target (Class 0)) ''a'' emptyStore) (Class 0) = Some 3 \<and>
   (\<exists>b i ou d.
     ownBaseDef (initializeBaseDef (Target (Extends 1 (Class 0)))
        (Input [Str ''a''] (Target (Class 0)) ''a'' emptyStore)) (Extends 1 (Class 0)) = Some b \<and>
     baseDefs (initializeBaseDef (Target (Extends 1 (Class 0)))
        (Input [Str ''a''] (Target (Class 0)) ''a'' emptyStore)) b =
       \<lparr>inputs = Some i, outputs = Some ou, declaredInputs = Some d\<rparr> \<and>
     4 \<le> b \<and> 4 \<le> i \<and> 4 \<le> ou \<and> 4 \<le> d \<and> b \<noteq> 3 \<and>
     objs (initializeBaseDef (Target (Extends 1 (Class 0)))
        (Input [Str ''a''] (Target (Class 0)) ''a'' emptyStore)) i = [''a'' \<mapsto> Str ''a''] \<and>
     objs (initializeBaseDef (Target (Extends 1 (Class 0)))
        (Input [Str ''a''] (Target (Class 0)) ''a'' emptyStore)) ou = Map.empty \<and>
     objs (initializeBaseDef (Target (Extends 1 (Class 0)))
        (Input [Str ''a''] (Target (Class 0)) ''a'' emptyStore)) d = Map.empty)"
proof -
  let ?s0 = "Input [Str ''a''] (Target (Class 0)) ''a'' emptyStore"
  let ?s1 = "initializeBaseDef (Target (Extends 1 (Class 0))) ?s0"
  from new_descriptor_contains_inherited[OF example_store_facts(1,4,3)]
  obtain b i ou d where
    "ownBaseDef ?s1 (Extends 1 (Class 0)) = Some b"
    "baseDefs ?s1 b = \<lparr>inputs = Some i, outputs = Some ou, declaredInputs = Some d\<rparr>"
    "nextRef ?s0 \<le> b" "nextRef ?s0 \<le> i" "nextRef ?s0 \<le> ou" "nextRef ?s0 \<le> d" "b \<noteq> 3"
    "objs ?s1 i = mapping ?s0 (inputs (baseDefs ?s0 3))"
    "objs ?s1 ou = mapping ?s0 (outputs (baseDefs ?s0 3))"
    "objs ?s1 d = mapping ?s0 (declaredInputs (baseDefs ?s0 3))"
    by blast
  then have "\<exists>b i ou d. ownBaseDef ?s1 (Extends 1 (Class 0)) = Some b \<and>
    baseDefs ?s1 b = \<lparr>inputs = Some i, outputs = Some ou, declaredInputs = Some d\<rparr> \<and>
    4 \<le> b \<and> 4 \<le> i \<and> 4 \<le> ou \<and> 4 \<le> d \<and> b \<noteq> 3 \<and>
    objs ?s1 i = [''a'' \<mapsto> Str ''a''] \<and> objs ?s1 ou = Map.empty \<and> objs ?s1 d = Map.empty"
    unfolding example_store_facts(5,6,7,10) by blast
  with example_store_facts(1,4,3) show ?thesis by blast
qed

section \<open>When a descriptor is created\<close>



section \<open>A subclass never writes to the descriptor of its superclass\<close>

text \<open>
  Claim C7. Let \<open>S\<close> be a superclass (any proper ancestor) of \<open>D\<close> that owns a descriptor.
  Creating the descriptor of \<open>D\<close>, recording an input binding on \<open>D\<close> and recording an output
  binding on \<open>D\<close> each leave \<open>S\<close> with the same descriptor object, with the same three mapping
  objects, and the \<^verbatim>\<open>inputs\<close>, \<^verbatim>\<open>outputs\<close> and \<^verbatim>\<open>declaredInputs\<close> mappings of \<open>S\<close> are exactly
  what they were.
\<close>

theorem superclass_descriptor_untouched:
  assumes "wellFormed s" and "ownBaseDef s S = Some bS" and "S \<in> set (ancestors (constructor tg))"
    and "s' = ensureBaseDef tg s \<or> s' = Input args tg name s \<or> s' = Output args tg name s"
  shows "ownBaseDef s' S = Some bS \<and> baseDefs s' bS = baseDefs s bS \<and>
    mapping s' (inputs (baseDefs s' bS)) = mapping s (inputs (baseDefs s bS)) \<and>
    mapping s' (outputs (baseDefs s' bS)) = mapping s (outputs (baseDefs s bS)) \<and>
    mapping s' (declaredInputs (baseDefs s' bS)) = mapping s (declaredInputs (baseDefs s bS))"
proof -
  from assms(3) have ne: "S \<noteq> constructor tg" by (rule ancestors_neq)
  from wellFormed_ownD[OF assms(1,2)] obtain i ou d where
    bd: "baseDefs s bS = \<lparr>inputs = Some i, outputs = Some ou, declaredInputs = Some d\<rparr>" by blast
  have f: "ownBaseDef s' S = Some bS \<and> baseDefs s' bS = baseDefs s bS \<and>
         (\<forall>r \<in> mapRefs (baseDefs s bS). objs s' r = objs s r)"
    using assms(4) ensureBaseDef_frame[OF assms(1,2), of tg]
      Input_frame[OF assms(1,2) ne, of args name] Output_frame[OF assms(1,2) ne, of args name]
    by blast
  then show ?thesis by (simp add: bd mapping_def)
qed

theorem superclass_descriptor_untouched_witness:
  "wellFormed (Input [Str ''name''] (Target (Class 0)) ''name'' emptyStore) \<and>
   ownBaseDef (Input [Str ''name''] (Target (Class 0)) ''name'' emptyStore) (Class 0) = Some 3 \<and>
   Class 0 \<in> set (ancestors (Extends 1 (Class 0))) \<and>
   ownBaseDef (Input [Str ''displayName''] (Target (Extends 1 (Class 0))) ''name''
     (Input [Str ''name''] (Target (Class 0)) ''name'' emptyStore)) (Class 0) = Some 3 \<and>
   mapping (Input [Str ''displayName''] (Target (Extends 1 (Class 0))) ''name''
     (Input [Str ''name''] (Target (Class 0)) ''name'' emptyStore))
     (inputs (baseDefs (Input [Str ''displayName''] (Target (Extends 1 (Class 0))) ''name''
     (Input [Str ''name''] (Target (Class 0)) ''name'' emptyStore)) 3)) = [''name'' \<mapsto> Str ''name'']"
proof -
  let ?s0 = "Input [Str ''name''] (Target (Class 0)) ''name'' emptyStore"
  have w: "wellFormed ?s0"
    by (rule wellFormed_Input[OF wellFormed_emptyStore])
  have o: "ownBaseDef ?s0 (Class 0) = Some 3"
    by (simp add: ownBaseDef_def ctorProps_Input ensureBaseDef_def hasOwnProperty_def
        NG_BASE_DEF_def ctorProps_initializeBaseDef emptyStore_def)
  have a: "Class 0 \<in> set (ancestors (constructor (Target (Extends 1 (Class 0)))))" by simp
  have m: "mapping ?s0 (inputs (baseDefs ?s0 3)) = [''name'' \<mapsto> Str ''name'']"
    by (simp add: Input_def updateBaseDefFromIOProp_def ensureBaseDef_def hasOwnProperty_def
      NG_BASE_DEF_def emptyStore_def initializeBaseDef_def newObject_def newBaseDef_def
      setNgBaseDef_def getInputs_def assignProp_def mapping_def Let_def)
  let ?s1 = "Input [Str ''displayName''] (Target (Extends 1 (Class 0))) ''name'' ?s0"
  have a2: "Class 0 \<in> set (ancestors (Extends 1 (Class 0)))" by simp
  have r: "ownBaseDef ?s1 (Class 0) = Some 3 \<and> baseDefs ?s1 3 = baseDefs ?s0 3 \<and>
    mapping ?s1 (inputs (baseDefs ?s1 3)) = mapping ?s0 (inputs (baseDefs ?s0 3)) \<and>
    mapping ?s1 (outputs (baseDefs ?s1 3)) = mapping ?s0 (outputs (baseDefs ?s0 3)) \<and>
    mapping ?s1 (declaredInputs (baseDefs ?s1 3)) = mapping ?s0 (declaredInputs (baseDefs ?s0 3))"
    by (rule superclass_descriptor_untouched[OF w o a disjI2[OF disjI1[OF refl]]])
  from r have r1: "ownBaseDef ?s1 (Class 0) = Some 3" by (rule conjunct1)
  from r have "mapping ?s1 (inputs (baseDefs ?s1 3)) = mapping ?s0 (inputs (baseDefs ?s0 3))"
    by blast
  then have r3: "mapping ?s1 (inputs (baseDefs ?s1 3)) = [''name'' \<mapsto> Str ''name'']"
    by (rule trans[OF _ m])
  from w o a2 r1 r3 show ?thesis by blast
qed

section \<open>The three mappings are independent\<close>

text \<open>
  Claim C8. Let \<open>s1\<close> be the store once the class has its descriptor (the store itself when
  the class already owns one). Recording an input binding for \<open>p\<close> changes the store only at
  the \<^verbatim>\<open>inputs\<close> object of that descriptor, where \<open>p\<close> is assigned; the \<^verbatim>\<open>outputs\<close> and
  \<^verbatim>\<open>declaredInputs\<close> objects, which are other objects, are as in \<open>s1\<close>. Symmetrically,
  recording an output binding changes only the \<^verbatim>\<open>outputs\<close> object.
\<close>

theorem categories_independent:
  assumes "wellFormed s"
  shows "(ownBaseDef s (constructor tg) \<noteq> None \<longrightarrow> ensureBaseDef tg s = s) \<and>
    (\<exists>b i ou d. ownBaseDef (ensureBaseDef tg s) (constructor tg) = Some b \<and>
       baseDefs (ensureBaseDef tg s) b = \<lparr>inputs = Some i, outputs = Some ou, declaredInputs = Some d\<rparr> \<and>
       i \<noteq> ou \<and> i \<noteq> d \<and> ou \<noteq> d \<and>
       Input args tg p s =
         (ensureBaseDef tg s)\<lparr>objs := (objs (ensureBaseDef tg s))
            (i := assignProp (objs (ensureBaseDef tg s) i) p (arg0 args))\<rparr> \<and>
       objs (Input args tg p s) ou = objs (ensureBaseDef tg s) ou \<and>
       objs (Input args tg p s) d = objs (ensureBaseDef tg s) d \<and>
       Output args tg p s =
         (ensureBaseDef tg s)\<lparr>objs := (objs (ensureBaseDef tg s))
            (ou := assignProp (objs (ensureBaseDef tg s) ou) p (arg0 args))\<rparr> \<and>
       objs (Output args tg p s) i = objs (ensureBaseDef tg s) i \<and>
       objs (Output args tg p s) d = objs (ensureBaseDef tg s) d)"
proof -
  let ?s1 = "ensureBaseDef tg s"
  obtain b where b: "ownBaseDef ?s1 (constructor tg) = Some b"
    using ownBaseDef_ensureBaseDef by blast
  from wellFormed_ownD[OF wellFormed_ensureBaseDef[OF assms] b] obtain i ou d where
    bd: "baseDefs ?s1 b = \<lparr>inputs = Some i, outputs = Some ou, declaredInputs = Some d\<rparr>"
    and ne: "i \<noteq> ou" "i \<noteq> d" "ou \<noteq> d" by blast
  have "Input args tg p s = Input args tg p ?s1"
    by (simp add: Input_def updateBaseDefFromIOProp_def ensureBaseDef_own[OF b])
  also have "\<dots> = ?s1\<lparr>objs := (objs ?s1)(i := assignProp (objs ?s1 i) p (arg0 args))\<rparr>"
    by (rule Input_own[OF b]) (simp add: bd)
  finally have ei: "Input args tg p s =
     ?s1\<lparr>objs := (objs ?s1)(i := assignProp (objs ?s1 i) p (arg0 args))\<rparr>" .
  have "Output args tg p s = Output args tg p ?s1"
    by (simp add: Output_def updateBaseDefFromIOProp_def ensureBaseDef_own[OF b])
  also have "\<dots> = ?s1\<lparr>objs := (objs ?s1)(ou := assignProp (objs ?s1 ou) p (arg0 args))\<rparr>"
    by (rule Output_own[OF b]) (simp add: bd)
  finally have eo: "Output args tg p s =
     ?s1\<lparr>objs := (objs ?s1)(ou := assignProp (objs ?s1 ou) p (arg0 args))\<rparr>" .
  have 1: "ownBaseDef s (constructor tg) \<noteq> None \<longrightarrow> ensureBaseDef tg s = s"
    by (auto simp: ensureBaseDef_own)
  have 2: "objs (Input args tg p s) ou = objs ?s1 ou" "objs (Input args tg p s) d = objs ?s1 d"
    "objs (Output args tg p s) i = objs ?s1 i" "objs (Output args tg p s) d = objs ?s1 d"
    using ne by (simp_all add: ei eo)
  from 1 2 b bd ne ei eo show ?thesis by blast
qed

theorem categories_independent_witness:
  "wellFormed emptyStore \<and>
   (\<exists>b i ou d. ownBaseDef (ensureBaseDef (Target (Class 0)) emptyStore) (Class 0) = Some b \<and>
       baseDefs (ensureBaseDef (Target (Class 0)) emptyStore) b =
         \<lparr>inputs = Some i, outputs = Some ou, declaredInputs = Some d\<rparr> \<and>
       i \<noteq> ou \<and> i \<noteq> d \<and> ou \<noteq> d \<and>
       objs (Input [] (Target (Class 0)) ''value'' emptyStore) ou =
         objs (ensureBaseDef (Target (Class 0)) emptyStore) ou \<and>
       objs (Input [] (Target (Class 0)) ''value'' emptyStore) d =
         objs (ensureBaseDef (Target (Class 0)) emptyStore) d \<and>
       objs (Output [] (Target (Class 0)) ''value'' emptyStore) i =
         objs (ensureBaseDef (Target (Class 0)) emptyStore) i \<and>
       objs (Output [] (Target (Class 0)) ''value'' emptyStore) d =
         objs (ensureBaseDef (Target (Class 0)) emptyStore) d)"
proof -
  from categories_independent[OF wellFormed_emptyStore, of "Target (Class 0)" "[]" "''value''"]
  obtain b i ou d where
    "ownBaseDef (ensureBaseDef (Target (Class 0)) emptyStore) (Class 0) = Some b"
    "baseDefs (ensureBaseDef (Target (Class 0)) emptyStore) b =
         \<lparr>inputs = Some i, outputs = Some ou, declaredInputs = Some d\<rparr>"
    "i \<noteq> ou" "i \<noteq> d" "ou \<noteq> d"
    "objs (Input [] (Target (Class 0)) ''value'' emptyStore) ou =
         objs (ensureBaseDef (Target (Class 0)) emptyStore) ou"
    "objs (Input [] (Target (Class 0)) ''value'' emptyStore) d =
         objs (ensureBaseDef (Target (Class 0)) emptyStore) d"
    "objs (Output [] (Target (Class 0)) ''value'' emptyStore) i =
         objs (ensureBaseDef (Target (Class 0)) emptyStore) i"
    "objs (Output [] (Target (Class 0)) ''value'' emptyStore) d =
         objs (ensureBaseDef (Target (Class 0)) emptyStore) d"
    by auto
  with wellFormed_emptyStore show ?thesis by blast
qed

section \<open>Nothing records into declaredInputs\<close>

text \<open>
  Claim C9. No sequence of \<^verbatim>\<open>Input\<close> and \<^verbatim>\<open>Output\<close> annotations, on whatever classes, changes
  the \<^verbatim>\<open>declaredInputs\<close> mapping that a class sees (its own, or else the one inherited from
  its superclass, or none). So when the class owns a descriptor after the annotations, the
  \<^verbatim>\<open>declaredInputs\<close> of that descriptor holds what the class saw before them, which for a
  descriptor created meanwhile is what was copied from the superclass; and if the class saw
  no descriptor, or an empty \<^verbatim>\<open>declaredInputs\<close>, the mapping is empty.
\<close>

theorem declaredInputs_never_written:
  assumes "wellFormed s"
  shows "visibleDeclaredInputs (annotateAll as s) c = visibleDeclaredInputs s c \<and>
    (\<forall>b. ownBaseDef (annotateAll as s) c = Some b \<longrightarrow>
       mapping (annotateAll as s) (declaredInputs (baseDefs (annotateAll as s) b)) =
         visibleDeclaredInputs s c) \<and>
    (visibleDeclaredInputs s c = Map.empty \<longrightarrow>
       (\<forall>b. ownBaseDef (annotateAll as s) c = Some b \<longrightarrow>
          mapping (annotateAll as s) (declaredInputs (baseDefs (annotateAll as s) b)) = Map.empty))"
  using visibleDeclaredInputs_annotateAll[OF assms, of as c]
    visibleDeclaredInputs_own[of "annotateAll as s" c]
  by auto

theorem declaredInputs_never_written_witness:
  "wellFormed emptyStore \<and>
   visibleDeclaredInputs emptyStore (Extends 1 (Class 0)) = Map.empty \<and>
   ownBaseDef (annotateAll [InputAnn [] (Target (Class 0)) ''a'',
        OutputAnn [Str ''changed''] (Target (Extends 1 (Class 0))) ''change''] emptyStore)
     (Extends 1 (Class 0)) = Some 7 \<and>
   mapping (annotateAll [InputAnn [] (Target (Class 0)) ''a'',
        OutputAnn [Str ''changed''] (Target (Extends 1 (Class 0))) ''change''] emptyStore)
     (declaredInputs (baseDefs (annotateAll [InputAnn [] (Target (Class 0)) ''a'',
        OutputAnn [Str ''changed''] (Target (Extends 1 (Class 0))) ''change''] emptyStore) 7)) =
     Map.empty"
proof -
  let ?as = "[InputAnn [] (Target (Class 0)) ''a'',
        OutputAnn [Str ''changed''] (Target (Extends 1 (Class 0))) ''change'']"
  have v: "visibleDeclaredInputs emptyStore (Extends 1 (Class 0)) = Map.empty"
    by (simp add: visibleDeclaredInputs_def emptyStore_def)
  have o: "ownBaseDef (annotateAll ?as emptyStore) (Extends 1 (Class 0)) = Some 7"
    by (simp add: Input_def Output_def updateBaseDefFromIOProp_def ensureBaseDef_def
        hasOwnProperty_def NG_BASE_DEF_def emptyStore_def initializeBaseDef_def newObject_def
        newBaseDef_def setNgBaseDef_def getInputs_def getOutputs_def assignProp_def fillProperties_def
        ownBaseDef_def Let_def)
  from declaredInputs_never_written[OF wellFormed_emptyStore, of ?as "Extends 1 (Class 0)"] v o
  have "mapping (annotateAll ?as emptyStore)
     (declaredInputs (baseDefs (annotateAll ?as emptyStore) 7)) = Map.empty"
    by blast
  with wellFormed_emptyStore v o show ?thesis by blast
qed

section \<open>The Pipe metadata\<close>

text \<open>
  Claim C10. The metadata transform of \<^verbatim>\<open>Pipe\<close> defaults \<^verbatim>\<open>pure\<close> to \<^verbatim>\<open>true\<close>: when the
  metadata object has no property \<^verbatim>\<open>pure\<close>, the produced metadata has \<^verbatim>\<open>pure = true\<close>;
  when it has one, its value is kept; every other property is kept as supplied.
\<close>

theorem Pipe_pure_default:
  "(p ''pure'' = None \<longrightarrow> PipeProps p ''pure'' = Some (Bool True)) \<and>
   (\<forall>v. p ''pure'' = Some v \<longrightarrow> PipeProps p ''pure'' = Some v) \<and>
   (\<forall>k. k \<noteq> ''pure'' \<longrightarrow> PipeProps p k = p k)"
  by (auto simp: PipeProps_def map_add_def split: option.splits)

theorem Pipe_pure_default_witness:
  "PipeProps [''name'' \<mapsto> Str ''myPipe''] ''pure'' = Some (Bool True) \<and>
   PipeProps [''name'' \<mapsto> Str ''myPipe'', ''pure'' \<mapsto> Bool False] ''pure'' = Some (Bool False) \<and>
   PipeProps [''name'' \<mapsto> Str ''myPipe''] ''name'' = Some (Str ''myPipe'')"
  using Pipe_pure_default[of "[''name'' \<mapsto> Str ''myPipe'']"]
    Pipe_pure_default[of "[''name'' \<mapsto> Str ''myPipe'', ''pure'' \<mapsto> Bool False]"]
  by simp

end
